theory Spec2Isabelle
  imports Main
begin

section \<open>PyIRCParser: the line decoder of ircparser.py\<close>

text \<open>
  The module decodes one line of IRC output into six fields (server, channel, recipient,
  user, type, msg). Python strings are modelled as \<open>string\<close>, one \<open>char\<close> per code
  point, which covers the code points below 256. Python's \<open>None\<close> is \<open>None\<close> of an
  option type. Every subscript of the source that can run out of range is a branch of
  the model that returns \<open>Inl IndexError\<close>.
\<close>

subsection \<open>Exceptions\<close>

datatype error = IndexError | ValueError | NameError

definition bind :: "error + 'a \<Rightarrow> ('a \<Rightarrow> error + 'b) \<Rightarrow> error + 'b" where
  "bind m f = (case m of Inl e \<Rightarrow> Inl e | Inr x \<Rightarrow> f x)"

text \<open>\<open>xs[i]\<close> for a literal index \<open>i \<ge> 0\<close>.\<close>

definition index :: "'a list \<Rightarrow> nat \<Rightarrow> error + 'a" where
  "index xs i = (if i < length xs then Inr (xs ! i) else Inl IndexError)"

subsection \<open>The string methods the module calls\<close>

text \<open>
  \<open>str.isspace\<close> on the code points below 256: TAB to CR, FS to US, space,
  NEL and NBSP. \<open>str.split()\<close> separates words at runs of these characters.
\<close>

definition isspace :: "char \<Rightarrow> bool" where
  "isspace c = (let n = (of_char c :: nat) in
     (9 \<le> n \<and> n \<le> 13) \<or> (28 \<le> n \<and> n \<le> 32) \<or> n = 133 \<or> n = 160)"

definition isdigit :: "char \<Rightarrow> bool" where
  "isdigit c = (let n = (of_char c :: nat) in 48 \<le> n \<and> n \<le> 57)"

text \<open>\<open>s.split(sep)\<close> for a one-character separator: never empty, keeps empty pieces.\<close>

fun split_on :: "char \<Rightarrow> string \<Rightarrow> string list" where
  "split_on sep [] = [[]]"
| "split_on sep (x # xs) =
     (if x = sep then [] # split_on sep xs
      else (case split_on sep xs of [] \<Rightarrow> [[x]] | w # ws \<Rightarrow> (x # w) # ws))"

text \<open>
  \<open>s.split()\<close>: skip leading whitespace, take the characters up to the next
  whitespace as a word, go on behind it. No word is empty.
\<close>

function split_ws :: "string \<Rightarrow> string list" where
  "split_ws [] = []"
| "split_ws (c # cs) =
     (if isspace c then split_ws cs
      else (c # takeWhile (\<lambda>x. \<not> isspace x) cs) # split_ws (dropWhile (\<lambda>x. \<not> isspace x) cs))"
  by pat_completeness auto
termination
  by (relation "measure length") (auto simp: length_dropWhile_le le_imp_less_Suc)

text \<open>\<open>sep.join(xs)\<close>.\<close>

fun join :: "string \<Rightarrow> string list \<Rightarrow> string" where
  "join sep [] = []"
| "join sep [x] = x"
| "join sep (x # y # ys) = x @ sep @ join sep (y # ys)"

definition startswith :: "string \<Rightarrow> string \<Rightarrow> bool" where
  "startswith s p = (take (length p) s = p)"

text \<open>
  \<open>int(c)\<close> on a word without whitespace: an optional sign, then decimal digits, single
  underscores allowed between two digits. Anything else raises \<open>ValueError\<close>, and so
  does a literal with more digits than \<open>sys.int_max_str_digits\<close>, whose default is 4300
  (CPython 3.11 and later count the digit characters, not the sign or the underscores).
\<close>

definition int_max_str_digits :: nat where
  "int_max_str_digits = 4300"

fun digits_value :: "int \<Rightarrow> string \<Rightarrow> error + int" where
  "digits_value acc [] = Inl ValueError"
| "digits_value acc [d] =
     (if isdigit d then Inr (10 * acc + (int (of_char d) - 48)) else Inl ValueError)"
| "digits_value acc (d # u # rest) =
     (if \<not> isdigit d then Inl ValueError
      else if u = CHR ''_'' then digits_value (10 * acc + (int (of_char d) - 48)) rest
      else digits_value (10 * acc + (int (of_char d) - 48)) (u # rest))"

definition py_int :: "string \<Rightarrow> error + int" where
  "py_int c = (case c of
       [] \<Rightarrow> Inl ValueError
     | x # xs \<Rightarrow>
         let body = (if x = CHR ''-'' \<or> x = CHR ''+'' then xs else c) in
         if int_max_str_digits < length (filter isdigit body) then Inl ValueError
         else bind (digits_value 0 body) (\<lambda>n. Inr (if x = CHR ''-'' then - n else n)))"

subsection \<open>The extraction functions\<close>

definition tokenize :: "string \<Rightarrow> string list" where
  "tokenize s = (let s' = split_on CHR '':'' s in if length s' > 1 then drop 1 s' else [])"

definition getNickname :: "string list \<Rightarrow> error + string" where
  "getNickname t = bind (index t 0) (\<lambda>t0. index (split_on CHR ''!'' t0) 0)"

definition strippedNickname :: "string \<Rightarrow> string" where
  "strippedNickname s =
     (if length s > 1 \<and> take 1 s \<in> set [''@'', ''!'', ''&'', ''~''] then drop 1 s else s)"

definition getHostname :: "string list \<Rightarrow> error + string" where
  "getHostname t =
     bind (index t 0) (\<lambda>t0.
     bind (index (split_on CHR ''!'' t0) 1) (\<lambda>a.
     bind (index (split_on CHR ''@'' a) 1) (\<lambda>b.
     index (split_ws b) 0)))"

definition getUser :: "string list \<Rightarrow> error + string" where
  "getUser t =
     bind (index t 0) (\<lambda>t0.
     bind (index (split_on CHR ''!'' t0) 1) (\<lambda>a.
     index (split_on CHR ''@'' a) 0))"

definition getChannel :: "string list \<Rightarrow> error + string option" where
  "getChannel t =
     bind (index t 0) (\<lambda>t0. Inr (find (\<lambda>item. startswith item ''#'') (split_ws t0)))"

definition getRecipient :: "string list \<Rightarrow> error + string" where
  "getRecipient t = bind (index t 0) (\<lambda>t0. index (split_ws t0) 2)"

definition getServer :: "string list \<Rightarrow> error + string" where
  "getServer t = bind (index t 0) (\<lambda>t0. index (split_ws t0) 0)"

definition getAction :: "string list \<Rightarrow> error + string" where
  "getAction t = bind (index t 0) (\<lambda>t0. index (split_ws t0) 1)"

definition isServerMessage :: "string list \<Rightarrow> error + bool" where
  "isServerMessage t =
     bind (index t 0) (\<lambda>t0.
     bind (index (split_ws t0) 0) (\<lambda>w.
     if CHR ''!'' \<notin> set w then Inr True else Inr False))"

text \<open>The \<open>try\<close> of \<open>getIRCCode\<close> catches \<open>ValueError\<close> only.\<close>

definition getIRCCode :: "string list \<Rightarrow> error + string option" where
  "getIRCCode t =
     bind (index t 0) (\<lambda>t0.
     bind (index (split_ws t0) 1) (\<lambda>c.
     case py_int c of
       Inl e \<Rightarrow> if e = ValueError then Inr None else Inl e
     | Inr n \<Rightarrow> Inr (Some c)))"

definition getMsg :: "string list \<Rightarrow> string option \<Rightarrow> string option \<Rightarrow> error + string option" where
  "getMsg t code action =
     (if length t > 1 then Inr (Some (join '':'' (drop 1 t)))
      else if code = Some ''333'' then
        bind (index t 0) (\<lambda>t0. Inr (Some (join '' '' (drop 4 (split_ws t0)))))
      else if action = Some ''MODE'' then
        bind (index t 0) (\<lambda>t0. Inr (Some (join '' '' (drop 3 (split_ws t0)))))
      else Inr None)"

subsection \<open>The local variables of \<open>_parse\<close>\<close>

text \<open>
  The local names of \<open>_parse\<close> that reach its \<open>return\<close>. \<open>code\<close> is assigned in
  the \<open>else\<close> branch only: \<open>None\<close> in that field says that the name is unbound, and
  reading it raises \<open>NameError\<close>.
\<close>

record env =
  server :: "string option"
  channel :: "string option"
  recipient :: "string option"
  user :: "(string \<times> string \<times> string) option"
  action :: "string option"
  code :: "string option option"
  msg :: "string option"

text \<open>Lines 134 to 139: the branch of a line that starts with PING.\<close>

definition ping_branch :: "string list \<Rightarrow> error + env" where
  "ping_branch t =
     bind (index t 0) (\<lambda>m.
     Inr \<lparr>server = None, channel = None, recipient = None, user = None,
          action = Some ''PING'', code = None, msg = Some m\<rparr>)"

text \<open>Lines 141 to 148: who sent the line.\<close>

definition origin :: "string list \<Rightarrow> error + (string option \<times> (string \<times> string \<times> string) option \<times> string option)" where
  "origin t =
     bind (isServerMessage t) (\<lambda>srv.
     if srv then bind (getServer t) (\<lambda>s. Inr (Some s, None, None))
     else
       bind (getNickname t) (\<lambda>n.
       bind (getUser t) (\<lambda>u.
       bind (getHostname t) (\<lambda>h.
       bind (getAction t) (\<lambda>a.
       Inr (None, Some (strippedNickname n, u, h), Some a))))))"

text \<open>
  Lines 149 to 152. \<open>and\<close> evaluates \<open>isServerMessage(t)\<close> only when the action is
  one of the two words.
\<close>

definition recipient_of :: "string list \<Rightarrow> string option \<Rightarrow> error + string option" where
  "recipient_of t a =
     (if a \<in> set [Some ''NOTICE'', Some ''PRIVMSG''] then
        bind (isServerMessage t) (\<lambda>srv.
        if \<not> srv then bind (getRecipient t) (\<lambda>r. Inr (Some r)) else Inr None)
      else Inr None)"

text \<open>Lines 141 to 155: the general field extraction of the \<open>else\<close> branch.\<close>

definition general_extraction :: "string list \<Rightarrow> error + env" where
  "general_extraction t =
     bind (origin t) (\<lambda>(srv, usr, act).
     bind (recipient_of t act) (\<lambda>rcp.
     bind (getIRCCode t) (\<lambda>cd.
     bind (getChannel t) (\<lambda>ch.
     bind (getMsg t cd act) (\<lambda>m.
     Inr \<lparr>server = srv, channel = ch, recipient = rcp, user = usr,
          action = act, code = Some cd, msg = m\<rparr>)))))"

text \<open>Lines 156 and 157, then lines 158 and 159.\<close>

definition part_override :: "env \<Rightarrow> env" where
  "part_override e = (if action e = Some ''PART'' then e\<lparr>msg := channel e\<rparr> else e)"

definition join_override :: "string list \<Rightarrow> env \<Rightarrow> error + env" where
  "join_override t e =
     (if action e = Some ''JOIN'' then
        (case code e of
           None \<Rightarrow> Inl NameError
         | Some cd \<Rightarrow> bind (getMsg t cd (action e)) (\<lambda>m. Inr (e\<lparr>channel := m\<rparr>)))
      else Inr e)"

definition overrides :: "string list \<Rightarrow> env \<Rightarrow> error + env" where
  "overrides t e = join_override t (part_override e)"

text \<open>Lines 132 to 159.\<close>

definition fields_of_line :: "string \<Rightarrow> error + env" where
  "fields_of_line s =
     (let t = tokenize s in
      if startswith s ''PING'' then ping_branch t
      else bind (general_extraction t) (overrides t))"

subsection \<open>The four output shapes\<close>

datatype pyval = PyNone | PyStr string | PyTuple3 string string string

definition of_str :: "string option \<Rightarrow> pyval" where
  "of_str x = (case x of None \<Rightarrow> PyNone | Some s \<Rightarrow> PyStr s)"

definition of_user :: "(string \<times> string \<times> string) option \<Rightarrow> pyval" where
  "of_user x = (case x of None \<Rightarrow> PyNone | Some (n, u, h) \<Rightarrow> PyTuple3 n u h)"

text \<open>
  A dict is its items in insertion order. An object is its attribute dictionary, which
  \<open>ParseOutput.__init__\<close> fills in the order of its assignments; \<open>setattr\<close> replaces
  the value of an attribute that exists and appends a new one.
\<close>

type_synonym pydict = "(string \<times> pyval) list"

datatype view = Tuple "pyval list" | PyList "pyval list" | Dict pydict | Object pydict

definition ParseOutput :: pydict where
  "ParseOutput =
     [(''server'', PyNone), (''channel'', PyNone), (''recipient'', PyNone),
      (''user'', PyNone), (''type'', PyNone), (''msg'', PyNone)]"

fun setattr :: "pydict \<Rightarrow> string \<Rightarrow> pyval \<Rightarrow> pydict" where
  "setattr [] key val = [(key, val)]"
| "setattr ((k, v) # rest) key val =
     (if k = key then (k, val) # rest else (k, v) # setattr rest key val)"

definition getOutputObject :: "pydict \<Rightarrow> view" where
  "getOutputObject d = Object (fold (\<lambda>(key, val) parseObj. setattr parseObj key val) d ParseOutput)"

text \<open>
  \<open>action or code\<close>: \<open>action\<close> when it is neither \<open>None\<close> nor the empty string,
  otherwise the value of \<open>code\<close>, which is read only then.
\<close>

definition action_or_code :: "env \<Rightarrow> error + string option" where
  "action_or_code e =
     (if action e \<noteq> None \<and> action e \<noteq> Some [] then Inr (action e)
      else (case code e of None \<Rightarrow> Inl NameError | Some cd \<Rightarrow> Inr cd))"

text \<open>Lines 160 to 195.\<close>

definition shape :: "string \<Rightarrow> env \<Rightarrow> error + view" where
  "shape output e =
     (if output = ''dict'' \<or> output = ''dictionary'' then
        bind (action_or_code e) (\<lambda>ty.
        Inr (Dict
          [(''server'', of_str (server e)), (''channel'', of_str (channel e)),
           (''recipient'', of_str (recipient e)), (''user'', of_user (user e)),
           (''type'', of_str ty), (''msg'', of_str (msg e))]))
      else if output = ''object'' then
        bind (action_or_code e) (\<lambda>ty.
        Inr (getOutputObject
          [(''server'', of_str (server e)), (''channel'', of_str (channel e)),
           (''recipient'', of_str (recipient e)), (''user'', of_user (user e)),
           (''type'', of_str ty), (''msg'', of_str (msg e))]))
      else if output = ''list'' then
        bind (action_or_code e) (\<lambda>ty.
        Inr (PyList
          [of_str (server e), of_str (channel e), of_str (recipient e), of_user (user e),
           of_str ty, of_str (msg e)]))
      else
        bind (action_or_code e) (\<lambda>ty.
        Inr (Tuple
          [of_str (server e), of_str (channel e), of_str (recipient e), of_user (user e),
           of_str ty, of_str (msg e)])))"

text \<open>\<open>_parse\<close>, lines 130 to 195.\<close>

definition parse_inner :: "string \<Rightarrow> string \<Rightarrow> error + view" where
  "parse_inner s output = bind (fields_of_line s) (shape output)"

text \<open>The result of the \<open>except IndexError\<close> branch, lines 202 to 223.\<close>

definition fallback :: "string \<Rightarrow> view" where
  "fallback output =
     (if output = ''dict'' \<or> output = ''dictionary'' then
        Dict [(''server'', PyNone), (''channel'', PyNone), (''recipient'', PyNone),
              (''user'', PyNone), (''type'', PyNone), (''msg'', PyNone)]
      else if output = ''object'' then
        getOutputObject
          [(''server'', PyNone), (''channel'', PyNone), (''recipient'', PyNone),
           (''user'', PyNone), (''type'', PyNone), (''msg'', PyNone)]
      else if output = ''list'' then PyList [PyNone, PyNone, PyNone, PyNone, PyNone, PyNone]
      else Tuple [PyNone, PyNone, PyNone, PyNone, PyNone, PyNone])"

text \<open>\<open>parse\<close>: any exception other than \<open>IndexError\<close> leaves the function.\<close>

definition parse :: "string \<Rightarrow> string \<Rightarrow> error + view" where
  "parse s output =
     (case parse_inner s output of
        Inl e \<Rightarrow> if e = IndexError then Inr (fallback output) else Inl e
      | Inr r \<Rightarrow> Inr r)"

subsection \<open>Reading a field of a result\<close>

definition keys :: "string list" where
  "keys = [''server'', ''channel'', ''recipient'', ''user'', ''type'', ''msg'']"

text \<open>
  The six values that a result carries, in the order of \<open>keys\<close>: the elements of a
  sequence, the values of a dict under the six keys, the six attributes of an object.
  A key that is missing has no value.
\<close>

fun field :: "view \<Rightarrow> string \<Rightarrow> pyval option" where
  "field (Tuple xs) k = map_of (zip keys xs) k"
| "field (PyList xs) k = map_of (zip keys xs) k"
| "field (Dict d) k = map_of d k"
| "field (Object a) k = map_of a k"

subsection \<open>Views over six values\<close>

text \<open>The six values of the \<open>return\<close> expressions of \<open>_parse\<close>, in their order.\<close>

definition six :: "env \<Rightarrow> string option \<Rightarrow> pyval list" where
  "six e ty = [of_str (server e), of_str (channel e), of_str (recipient e), of_user (user e),
     of_str ty, of_str (msg e)]"

text \<open>
  The view that an output mode gives to six values: the case distinction that \<open>_parse\<close>
  and \<open>parse\<close> both make on \<open>output\<close>.
\<close>

definition make_view :: "string \<Rightarrow> pyval list \<Rightarrow> view" where
  "make_view out vals =
     (if out = ''dict'' \<or> out = ''dictionary'' then Dict (zip keys vals)
      else if out = ''object'' then getOutputObject (zip keys vals)
      else if out = ''list'' then PyList vals
      else Tuple vals)"

text \<open>The values that a view holds under the six keys, read back in the order of \<open>keys\<close>.\<close>

definition values_of :: "view \<Rightarrow> pyval list" where
  "values_of r = List.map_filter (field r) keys"


subsection \<open>The payload policy of the specification\<close>

text \<open>
  The payload policy in the words of the specification, first match wins: with more than
  one token, all tokens from the second onward rejoined with a colon; else with code 333,
  the words of the first token from index 4 onward joined with single spaces; else with
  action MODE, the words from index 3 onward; else absent.
\<close>

definition msg_policy :: "string list \<Rightarrow> string option \<Rightarrow> string option \<Rightarrow> string option" where
  "msg_policy tokens cd act =
     (case tokens of
        [] \<Rightarrow> None
      | first # others \<Rightarrow>
          if others \<noteq> [] then Some (join '':'' others)
          else if cd = Some ''333'' then Some (join '' '' (drop 4 (split_ws first)))
          else if act = Some ''MODE'' then Some (join '' '' (drop 3 (split_ws first)))
          else None)"


subsection \<open>The parts of a user prefix\<close>

text \<open>
  The part of a user prefix that C7 speaks of: not empty, and without colon, exclamation
  mark, at sign and whitespace.
\<close>

definition plain_word :: "string \<Rightarrow> bool" where
  "plain_word w =
     (w \<noteq> [] \<and>
      list_all (\<lambda>c. c \<noteq> CHR '':'' \<and> c \<noteq> CHR ''!'' \<and> c \<noteq> CHR ''@'' \<and> \<not> isspace c) w)"

section \<open>Auxiliary facts\<close>

subsection \<open>Which exceptions can occur\<close>

lemma bind_simps [simp]: "bind (Inl e) f = Inl e" "bind (Inr x) f = f x"
  by (simp_all add: bind_def)

lemma bind_eq_Inl: "bind m f = Inl e \<longleftrightarrow> m = Inl e \<or> (\<exists>x. m = Inr x \<and> f x = Inl e)"
  by (cases m) simp_all

lemma bind_eq_Inr: "bind m f = Inr y \<longleftrightarrow> (\<exists>x. m = Inr x \<and> f x = Inr y)"
  by (cases m) simp_all

lemma index_error: "index xs i = Inl e \<Longrightarrow> e = IndexError"
  by (simp add: index_def split: if_splits)

lemma digits_value_error: "digits_value acc s = Inl e \<Longrightarrow> e = ValueError"
  by (induction acc s rule: digits_value.induct) (auto split: if_splits)

lemma py_int_error: "py_int c = Inl e \<Longrightarrow> e = ValueError"
  by (auto simp: py_int_def Let_def bind_eq_Inl split: list.splits if_splits
      dest: digits_value_error)

lemma getNickname_error: "getNickname t = Inl e \<Longrightarrow> e = IndexError"
  by (auto simp: getNickname_def bind_eq_Inl dest: index_error)

lemma getHostname_error: "getHostname t = Inl e \<Longrightarrow> e = IndexError"
  by (auto simp: getHostname_def bind_eq_Inl dest: index_error)

lemma getUser_error: "getUser t = Inl e \<Longrightarrow> e = IndexError"
  by (auto simp: getUser_def bind_eq_Inl dest: index_error)

lemma getChannel_error: "getChannel t = Inl e \<Longrightarrow> e = IndexError"
  by (auto simp: getChannel_def bind_eq_Inl dest: index_error)

lemma getRecipient_error: "getRecipient t = Inl e \<Longrightarrow> e = IndexError"
  by (auto simp: getRecipient_def bind_eq_Inl dest: index_error)

lemma getServer_error: "getServer t = Inl e \<Longrightarrow> e = IndexError"
  by (auto simp: getServer_def bind_eq_Inl dest: index_error)

lemma getAction_error: "getAction t = Inl e \<Longrightarrow> e = IndexError"
  by (auto simp: getAction_def bind_eq_Inl dest: index_error)

lemma isServerMessage_error: "isServerMessage t = Inl e \<Longrightarrow> e = IndexError"
  by (auto simp: isServerMessage_def bind_eq_Inl split: if_splits dest: index_error)

lemma code_of_word: "(case py_int c of Inl e \<Rightarrow> if e = ValueError then Inr None else Inl e
    | Inr n \<Rightarrow> Inr (Some c)) = Inr (case py_int c of Inl e \<Rightarrow> None | Inr n \<Rightarrow> Some c)"
  by (cases "py_int c") (auto dest: py_int_error)

lemma getIRCCode_error: "getIRCCode t = Inl e \<Longrightarrow> e = IndexError"
  by (auto simp: getIRCCode_def code_of_word bind_eq_Inl dest: index_error)

lemma getMsg_error: "getMsg t cd a = Inl e \<Longrightarrow> e = IndexError"
  by (auto simp: getMsg_def bind_eq_Inl split: if_splits dest: index_error)

lemma origin_error: "origin t = Inl e \<Longrightarrow> e = IndexError"
  by (auto simp: origin_def bind_eq_Inl split: if_splits
      dest: isServerMessage_error getServer_error getNickname_error getUser_error
        getHostname_error getAction_error)

lemma origin_exclusive: "origin t = Inr (srv, usr, act) \<Longrightarrow> srv = None \<or> usr = None"
  by (auto simp: origin_def bind_eq_Inr split: if_splits)

lemma recipient_of_error: "recipient_of t a = Inl e \<Longrightarrow> e = IndexError"
  by (auto simp: recipient_of_def bind_eq_Inl split: if_splits
      dest: isServerMessage_error getRecipient_error)

lemma general_extraction_error: "general_extraction t = Inl e \<Longrightarrow> e = IndexError"
  by (auto simp: general_extraction_def bind_eq_Inl
      dest: origin_error recipient_of_error getIRCCode_error getChannel_error getMsg_error)

lemma general_extraction_Inr:
  assumes "general_extraction t = Inr e"
  shows "code e \<noteq> None" and "server e = None \<or> user e = None"
  using assms
  by (auto simp: general_extraction_def bind_eq_Inr dest: origin_exclusive)

lemma part_override_simps [simp]:
  "code (part_override e) = code e" "action (part_override e) = action e"
  "server (part_override e) = server e" "user (part_override e) = user e"
  "channel (part_override e) = channel e" "recipient (part_override e) = recipient e"
  by (simp_all add: part_override_def)

lemma overrides_error: "code e \<noteq> None \<Longrightarrow> overrides t e = Inl x \<Longrightarrow> x = IndexError"
  by (auto simp: overrides_def join_override_def bind_eq_Inl split: if_splits option.splits
      dest: getMsg_error)

lemma overrides_Inr:
  assumes "overrides t e = Inr e'"
  shows "code e' = code e" and "server e' = server e" and "user e' = user e"
    and "action e' = action e" and "recipient e' = recipient e"
  using assms
  by (auto simp: overrides_def join_override_def bind_eq_Inr split: if_splits option.splits)

lemma ping_branch_error: "ping_branch t = Inl x \<Longrightarrow> x = IndexError"
  by (auto simp: ping_branch_def bind_eq_Inl dest: index_error)

lemma fields_of_line_ping:
  "startswith s ''PING'' \<Longrightarrow> fields_of_line s = ping_branch (tokenize s)"
  by (simp add: fields_of_line_def Let_def)

lemma fields_of_line_else:
  "\<not> startswith s ''PING'' \<Longrightarrow>
     fields_of_line s = bind (general_extraction (tokenize s)) (overrides (tokenize s))"
  by (simp add: fields_of_line_def Let_def)

lemma fields_of_line_error:
  assumes "fields_of_line s = Inl x"
  shows "x = IndexError"
proof (cases "startswith s ''PING''")
  case True
  with assms show ?thesis
    by (auto simp: fields_of_line_ping dest: ping_branch_error)
next
  case False
  with assms have b: "bind (general_extraction (tokenize s)) (overrides (tokenize s)) = Inl x"
    by (simp add: fields_of_line_else)
  show ?thesis
  proof (cases "general_extraction (tokenize s)")
    case (Inl a)
    with b show ?thesis by (auto dest: general_extraction_error)
  next
    case (Inr e)
    with b have "overrides (tokenize s) e = Inl x" by simp
    with general_extraction_Inr(1)[OF Inr] show ?thesis by (rule overrides_error)
  qed
qed

lemma fields_of_line_Inr:
  assumes "fields_of_line s = Inr e"
  shows "action e = Some ''PING'' \<or> code e \<noteq> None" and "server e = None \<or> user e = None"
proof -
  have "(action e = Some ''PING'' \<or> code e \<noteq> None) \<and> (server e = None \<or> user e = None)"
  proof (cases "startswith s ''PING''")
    case True
    with assms show ?thesis
      by (auto simp: fields_of_line_ping ping_branch_def bind_eq_Inr)
  next
    case False
    with assms obtain e0 where g: "general_extraction (tokenize s) = Inr e0"
      and o: "overrides (tokenize s) e0 = Inr e"
      by (auto simp: fields_of_line_else bind_eq_Inr)
    from general_extraction_Inr[OF g] overrides_Inr(1,2,3)[OF o] show ?thesis by simp
  qed
  then show "action e = Some ''PING'' \<or> code e \<noteq> None" and "server e = None \<or> user e = None"
    by simp_all
qed

lemma action_or_code_total:
  "action e = Some ''PING'' \<or> code e \<noteq> None \<Longrightarrow> \<exists>ty. action_or_code e = Inr ty"
  by (auto simp: action_or_code_def split: option.splits)

lemma shape_make_view: "action_or_code e = Inr ty \<Longrightarrow> shape out e = Inr (make_view out (six e ty))"
  by (simp add: shape_def six_def make_view_def keys_def)

lemma fallback_make_view: "fallback out = make_view out (replicate 6 PyNone)"
  by (simp add: fallback_def make_view_def keys_def numeral_eq_Suc)

lemma parse_cases:
  "(fields_of_line s = Inl IndexError \<and> (\<forall>out. parse s out = Inr (make_view out (replicate 6 PyNone))))
   \<or> (\<exists>e ty. fields_of_line s = Inr e \<and> action_or_code e = Inr ty
         \<and> (\<forall>out. parse s out = Inr (make_view out (six e ty))))"
proof (cases "fields_of_line s")
  case (Inl x)
  then have "x = IndexError" by (rule fields_of_line_error)
  with Inl show ?thesis
    by (simp add: parse_def parse_inner_def fallback_make_view)
next
  case (Inr e)
  from fields_of_line_Inr(1)[OF Inr] obtain ty where "action_or_code e = Inr ty"
    using action_or_code_total by blast
  with Inr show ?thesis
    by (simp add: parse_def parse_inner_def shape_make_view)
qed

lemma make_view_fields:
  "map (field (make_view out [a, b, c, d, e, f])) keys = map Some [a, b, c, d, e, f]"
  by (simp add: make_view_def getOutputObject_def ParseOutput_def keys_def)

lemma make_view_values: "values_of (make_view out [a, b, c, d, e, f]) = [a, b, c, d, e, f]"
  by (simp add: values_of_def make_view_def getOutputObject_def ParseOutput_def keys_def
      List.map_filter_simps)

lemma field_make_view:
  "field (make_view out [a, b, c, d, e, f]) ''server'' = Some a"
  "field (make_view out [a, b, c, d, e, f]) ''channel'' = Some b"
  "field (make_view out [a, b, c, d, e, f]) ''recipient'' = Some c"
  "field (make_view out [a, b, c, d, e, f]) ''user'' = Some d"
  "field (make_view out [a, b, c, d, e, f]) ''type'' = Some e"
  "field (make_view out [a, b, c, d, e, f]) ''msg'' = Some f"
  by (simp_all add: make_view_def getOutputObject_def ParseOutput_def keys_def)

lemma six_list: "\<exists>a b c d x f. six e ty = [a, b, c, d, x, f]"
  by (simp add: six_def)

lemma none_list: "replicate 6 PyNone = [PyNone, PyNone, PyNone, PyNone, PyNone, PyNone]"
  by (simp add: numeral_eq_Suc)

lemma parse_make_view:
  "\<exists>a b c d e f. \<forall>out. parse s out = Inr (make_view out [a, b, c, d, e, f])"
  using parse_cases[of s] six_list by (metis none_list)

subsection \<open>Splitting at a separator\<close>

lemma split_on_eq_Cons: "split_on c s = takeWhile (\<lambda>x. x \<noteq> c) s # tl (split_on c s)"
  by (induction s) (auto split: list.splits)

lemma split_on_not_Nil: "split_on c s \<noteq> []"
  by (subst split_on_eq_Cons) simp

lemma split_on_absent: "c \<notin> set s \<Longrightarrow> split_on c s = [s]"
  by (induction s) auto

lemma split_on_append: "c \<notin> set p \<Longrightarrow> split_on c (p @ c # r) = p # split_on c r"
  by (induction p) auto

lemma length_split_on: "1 < length (split_on c s) \<longleftrightarrow> c \<in> set s"
proof (induction s)
  case Nil
  show ?case by simp
next
  case (Cons x s)
  obtain w ws where "split_on c s = w # ws"
    using split_on_not_Nil[of c s] by (cases "split_on c s") auto
  with Cons show ?case by auto
qed

lemma index_split_on_0: "index (split_on c s) 0 = Inr (takeWhile (\<lambda>x. x \<noteq> c) s)"
  by (subst split_on_eq_Cons) (simp add: index_def)

lemma takeWhile_until: "c \<notin> set p \<Longrightarrow> takeWhile (\<lambda>x. x \<noteq> c) (p @ c # r) = p"
  by (induction p) auto

lemma dropWhile_until: "c \<notin> set p \<Longrightarrow> dropWhile (\<lambda>x. x \<noteq> c) (p @ c # r) = c # r"
  by (induction p) auto

lemma takeWhile_pass:
  "c \<notin> set p \<Longrightarrow> takeWhile (\<lambda>x. x \<noteq> c) (p @ r) = p @ takeWhile (\<lambda>x. x \<noteq> c) r"
  by (induction p) auto

lemma split_on_present:
  assumes "c \<in> set s"
  shows "split_on c s =
     takeWhile (\<lambda>x. x \<noteq> c) s # split_on c (tl (dropWhile (\<lambda>x. x \<noteq> c) s))"
proof -
  from assms obtain p r where s: "s = p @ c # r" and p: "c \<notin> set p"
    by (auto dest: split_list_first)
  show ?thesis
    unfolding s using p by (simp add: takeWhile_until dropWhile_until split_on_append)
qed

lemma index_split_on_1:
  "index (split_on c s) (Suc 0) =
     (if c \<in> set s then Inr (takeWhile (\<lambda>x. x \<noteq> c) (tl (dropWhile (\<lambda>x. x \<noteq> c) s)))
      else Inl IndexError)"
proof (cases "c \<in> set s")
  case True
  let ?r = "tl (dropWhile (\<lambda>x. x \<noteq> c) s)"
  have "split_on c s = takeWhile (\<lambda>x. x \<noteq> c) s # takeWhile (\<lambda>x. x \<noteq> c) ?r # tl (split_on c ?r)"
    using split_on_present[OF True] split_on_eq_Cons[of c ?r] by simp
  with True show ?thesis by (simp add: index_def)
next
  case False
  then show ?thesis by (simp add: split_on_absent index_def)
qed

lemma tokenize_absent: "CHR '':'' \<notin> set s \<Longrightarrow> tokenize s = []"
  by (simp add: tokenize_def split_on_absent)

lemma tokenize_append: "CHR '':'' \<notin> set p \<Longrightarrow> tokenize (p @ CHR '':'' # r) = split_on CHR '':'' r"
  by (simp add: tokenize_def split_on_append Let_def split_on_not_Nil)

lemma tokenize_present:
  "CHR '':'' \<in> set s \<Longrightarrow> tokenize s = split_on CHR '':'' (tl (dropWhile (\<lambda>x. x \<noteq> CHR '':'') s))"
  by (simp add: tokenize_def split_on_present Let_def split_on_not_Nil)

subsection \<open>The result of \<open>parse\<close> from the fields of a line\<close>

lemma parse_Inr:
  "fields_of_line s = Inr e \<Longrightarrow> action_or_code e = Inr ty \<Longrightarrow>
     parse s out = Inr (make_view out (six e ty))"
  by (simp add: parse_def parse_inner_def shape_make_view)

lemma parse_Inl: "fields_of_line s = Inl IndexError \<Longrightarrow> parse s out = Inr (fallback out)"
  by (simp add: parse_def parse_inner_def)

lemma fallback_fields: "map (field (fallback out)) keys = replicate 6 (Some PyNone)"
  by (simp add: fallback_make_view none_list make_view_fields) (simp add: numeral_eq_Suc)

lemma fields_of_line_no_tokens: "tokenize s = [] \<Longrightarrow> fields_of_line s = Inl IndexError"
  by (simp add: fields_of_line_def ping_branch_def general_extraction_def origin_def
      isServerMessage_def index_def)

subsection \<open>Words and the user prefix\<close>

lemma split_ws_subset: "w \<in> set (split_ws s) \<Longrightarrow> set w \<subseteq> set s"
proof (induction s arbitrary: w rule: split_ws.induct)
  case 1
  then show ?case by simp
next
  case (2 c cs)
  show ?case
  proof (cases "isspace c")
    case True
    with 2 show ?thesis by auto
  next
    case False
    with 2(3) have "w = c # takeWhile (\<lambda>x. \<not> isspace x) cs
        \<or> w \<in> set (split_ws (dropWhile (\<lambda>x. \<not> isspace x) cs))"
      by simp
    then show ?thesis
    proof
      assume "w = c # takeWhile (\<lambda>x. \<not> isspace x) cs"
      then show ?thesis by (auto dest: set_takeWhileD)
    next
      assume "w \<in> set (split_ws (dropWhile (\<lambda>x. \<not> isspace x) cs))"
      with 2(2)[OF False] have "set w \<subseteq> set (dropWhile (\<lambda>x. \<not> isspace x) cs)" by simp
      then show ?thesis by (auto dest: set_dropWhileD)
    qed
  qed
qed

lemma set_tl_dropWhile: "set (takeWhile P (tl (dropWhile Q s))) \<subseteq> set (tl (dropWhile Q s))"
  by (auto dest: set_takeWhileD)

lemma getHostname_no_at:
  assumes "CHR ''!'' \<in> set t0"
    and "CHR ''@'' \<notin> set (tl (dropWhile (\<lambda>x. x \<noteq> CHR ''!'') t0))"
  shows "getHostname (t0 # ts) = Inl IndexError"
proof -
  let ?a = "takeWhile (\<lambda>x. x \<noteq> CHR ''!'') (tl (dropWhile (\<lambda>x. x \<noteq> CHR ''!'') t0))"
  have "CHR ''@'' \<notin> set ?a"
    using assms(2) set_tl_dropWhile by fastforce
  then have "index (split_on CHR ''@'' ?a) (Suc 0) = Inl IndexError"
    by (simp add: index_split_on_1)
  then show ?thesis
    using assms(1) by (simp add: getHostname_def index_split_on_1) (simp add: index_def)
qed

lemma origin_no_at:
  assumes "split_ws t0 = w # ws" and "CHR ''!'' \<in> set w"
    and "CHR ''@'' \<notin> set (tl (dropWhile (\<lambda>x. x \<noteq> CHR ''!'') t0))"
  shows "origin (t0 # ts) = Inl IndexError"
proof -
  have "w \<in> set (split_ws t0)" using assms(1) by simp
  then have bang: "CHR ''!'' \<in> set t0" using split_ws_subset assms(2) by blast
  have srv: "isServerMessage (t0 # ts) = Inr False"
    using assms(1,2) by (simp add: isServerMessage_def index_def)
  have nick: "\<exists>n. getNickname (t0 # ts) = Inr n"
    by (simp add: getNickname_def index_split_on_0) (simp add: index_def)
  have usr: "\<exists>u. getUser (t0 # ts) = Inr u"
    using bang by (simp add: getUser_def index_split_on_1 index_split_on_0) (simp add: index_def index_split_on_0)
  from nick usr srv getHostname_no_at[OF bang assms(3)] show ?thesis
    by (auto simp: origin_def)
qed

subsection \<open>The payload policy and the overrides\<close>

lemma getMsg_policy: "t \<noteq> [] \<Longrightarrow> getMsg t cd a = Inr (msg_policy t cd a)"
  by (cases t) (auto simp: getMsg_def msg_policy_def index_def)

lemma origin_tokens: "origin t = Inr x \<Longrightarrow> t \<noteq> []"
  by (auto simp: origin_def isServerMessage_def index_def)

lemma general_extraction_msg:
  assumes "general_extraction t = Inr e"
  shows "t \<noteq> []" and "\<exists>cd. code e = Some cd \<and> msg e = msg_policy t cd (action e)"
proof -
  from assms obtain x where o: "origin t = Inr x"
    by (auto simp: general_extraction_def bind_eq_Inr)
  then show t: "t \<noteq> []" by (rule origin_tokens)
  from assms show "\<exists>cd. code e = Some cd \<and> msg e = msg_policy t cd (action e)"
    by (auto simp: general_extraction_def bind_eq_Inr getMsg_policy[OF t])
qed

lemma overrides_eq:
  assumes "t \<noteq> []" and "code e = Some cd"
  shows "overrides t e = Inr
     (if action e = Some ''JOIN'' then (part_override e)\<lparr>channel := msg_policy t cd (action e)\<rparr>
      else part_override e)"
  using assms by (simp add: overrides_def join_override_def getMsg_policy)

lemma field_six:
  "field (make_view out (six e ty)) ''msg'' = Some (of_str (msg e))"
  "field (make_view out (six e ty)) ''channel'' = Some (of_str (channel e))"
  "field (make_view out (six e ty)) ''user'' = Some (of_user (user e))"
  "field (make_view out (six e ty)) ''server'' = Some (of_str (server e))"
  "field (make_view out (six e ty)) ''recipient'' = Some (of_str (recipient e))"
  "field (make_view out (six e ty)) ''type'' = Some (of_str ty)"
  by (simp_all add: six_def field_make_view)

lemma parse_else:
  assumes "\<not> startswith s ''PING''" and "general_extraction (tokenize s) = Inr e"
    and "code e = Some cd"
  shows "\<exists>e' ty. e' = (if action e = Some ''JOIN''
            then (part_override e)\<lparr>channel := msg_policy (tokenize s) cd (action e)\<rparr>
            else part_override e) \<and>
          overrides (tokenize s) e = Inr e' \<and> fields_of_line s = Inr e' \<and>
          parse s out = Inr (make_view out (six e' ty))"
proof -
  let ?e' = "if action e = Some ''JOIN''
            then (part_override e)\<lparr>channel := msg_policy (tokenize s) cd (action e)\<rparr>
            else part_override e"
  have o: "overrides (tokenize s) e = Inr ?e'"
    using overrides_eq[OF general_extraction_msg(1)[OF assms(2)] assms(3)] .
  then have f: "fields_of_line s = Inr ?e'"
    using assms(1,2) by (simp add: fields_of_line_else)
  have "code ?e' \<noteq> None" using assms(3) by simp
  then obtain ty where "action_or_code ?e' = Inr ty"
    using action_or_code_total by blast
  from parse_Inr[OF f this] o f show ?thesis by blast
qed

subsection \<open>A well-formed user prefix\<close>

lemma plain_wordD:
  assumes "plain_word w"
  shows "w \<noteq> []" and "CHR '':'' \<notin> set w" and "CHR ''!'' \<notin> set w" and "CHR ''@'' \<notin> set w"
    and "\<And>c. c \<in> set w \<Longrightarrow> \<not> isspace c"
  using assms by (auto simp: plain_word_def list_all_iff)

lemma isspace_space [simp]: "isspace CHR '' ''"
  by (simp add: isspace_def)

lemma not_isspace_marks [simp]: "\<not> isspace CHR ''!''" "\<not> isspace CHR ''@''" "\<not> isspace CHR '':''"
  by (simp_all add: isspace_def)

lemma split_ws_word:
  assumes "w \<noteq> []" and "\<And>c. c \<in> set w \<Longrightarrow> \<not> isspace c" and "isspace sp"
  shows "split_ws (w @ sp # r) = w # split_ws r"
proof -
  from assms(1) obtain c cs where w: "w = c # cs" by (cases w) auto
  have cs: "\<And>x. x \<in> set cs \<Longrightarrow> \<not> isspace x" using assms(2) w by simp
  have t: "takeWhile (\<lambda>x. \<not> isspace x) (cs @ sp # r) = cs"
    using cs assms(3) by (induction cs) auto
  have d: "dropWhile (\<lambda>x. \<not> isspace x) (cs @ sp # r) = sp # r"
    using cs assms(3) by (induction cs) auto
  have "\<not> isspace c" using assms(2) w by simp
  then show ?thesis using t d assms(3) by (simp add: w)
qed

lemma user_prefix_token:
  assumes "plain_word nick" and "plain_word usr" and "plain_word host"
  shows "\<exists>ts. tokenize (CHR '':'' # nick @ CHR ''!'' # usr @ CHR ''@'' # host @ CHR '' '' # rest) =
     (nick @ CHR ''!'' # usr @ CHR ''@'' # host @ CHR '' '' # takeWhile (\<lambda>x. x \<noteq> CHR '':'') rest) # ts"
proof -
  let ?pre = "nick @ CHR ''!'' # usr @ CHR ''@'' # host @ [CHR '' '']"
  have c: "CHR '':'' \<notin> set ?pre"
    using plain_wordD(2)[OF assms(1)] plain_wordD(2)[OF assms(2)] plain_wordD(2)[OF assms(3)]
    by simp
  have "tokenize ([] @ CHR '':'' # (?pre @ rest)) = split_on CHR '':'' (?pre @ rest)"
    by (rule tokenize_append) simp
  also have "\<dots> = takeWhile (\<lambda>x. x \<noteq> CHR '':'') (?pre @ rest) # tl (split_on CHR '':'' (?pre @ rest))"
    by (rule split_on_eq_Cons)
  also have "takeWhile (\<lambda>x. x \<noteq> CHR '':'') (?pre @ rest) =
      ?pre @ takeWhile (\<lambda>x. x \<noteq> CHR '':'') rest"
    using c by (rule takeWhile_pass)
  finally have "tokenize ([] @ CHR '':'' # (?pre @ rest)) =
      (?pre @ takeWhile (\<lambda>x. x \<noteq> CHR '':'') rest) # tl (split_on CHR '':'' (?pre @ rest))" .
  then have "tokenize (CHR '':'' # nick @ CHR ''!'' # usr @ CHR ''@'' # host @ CHR '' '' # rest) =
     (nick @ CHR ''!'' # usr @ CHR ''@'' # host @ CHR '' '' # takeWhile (\<lambda>x. x \<noteq> CHR '':'') rest)
       # tl (split_on CHR '':'' (?pre @ rest))"
    by simp
  then show ?thesis by blast
qed

lemma user_prefix_origin:
  assumes "plain_word nick" and "plain_word usr" and "plain_word host"
    and "split_ws r0 = cmd # params"
  shows "origin ((nick @ CHR ''!'' # usr @ CHR ''@'' # host @ CHR '' '' # r0) # ts) =
     Inr (None, Some (strippedNickname nick, usr, host), Some cmd)"
    and "split_ws (nick @ CHR ''!'' # usr @ CHR ''@'' # host @ CHR '' '' # r0) =
     (nick @ CHR ''!'' # usr @ CHR ''@'' # host) # cmd # params"
proof -
  let ?t0 = "nick @ CHR ''!'' # usr @ CHR ''@'' # host @ CHR '' '' # r0"
  let ?w = "nick @ CHR ''!'' # usr @ CHR ''@'' # host"
  note n = plain_wordD[OF assms(1)] and u = plain_wordD[OF assms(2)] and h = plain_wordD[OF assms(3)]
  have "split_ws (?w @ CHR '' '' # r0) = ?w # split_ws r0"
    using n(5) u(5) h(5) by (intro split_ws_word) auto
  then show words: "split_ws ?t0 = ?w # cmd # params"
    using assms(4) by simp
  have i0: "index (?t0 # ts) 0 = Inr ?t0" by (simp add: index_def)
  have srv: "isServerMessage (?t0 # ts) = Inr False"
    by (simp add: isServerMessage_def index_def words)
  have nick: "getNickname (?t0 # ts) = Inr nick"
    unfolding getNickname_def i0
    by (simp add: index_split_on_0 takeWhile_until[OF n(3)])
  let ?r1 = "takeWhile (\<lambda>x. x \<noteq> CHR ''!'') r0"
  let ?a = "usr @ CHR ''@'' # host @ CHR '' '' # ?r1"
  have "takeWhile (\<lambda>x. x \<noteq> CHR ''!'') ((usr @ CHR ''@'' # host @ [CHR '' '']) @ r0) =
      (usr @ CHR ''@'' # host @ [CHR '' '']) @ ?r1"
    using u(3) h(3) by (intro takeWhile_pass) simp
  then have tw: "takeWhile (\<lambda>x. x \<noteq> CHR ''!'') (usr @ CHR ''@'' # host @ CHR '' '' # r0) = ?a"
    by simp
  have a: "index (split_on CHR ''!'' ?t0) (Suc 0) = Inr ?a"
    unfolding index_split_on_1 dropWhile_until[OF n(3)] using tw by simp
  have usr: "getUser (?t0 # ts) = Inr usr"
    unfolding getUser_def i0
    by (simp add: a index_split_on_0 takeWhile_until[OF u(4)])
  have "takeWhile (\<lambda>x. x \<noteq> CHR ''@'') ((host @ [CHR '' '']) @ ?r1) =
      (host @ [CHR '' '']) @ takeWhile (\<lambda>x. x \<noteq> CHR ''@'') ?r1"
    using h(4) by (intro takeWhile_pass) simp
  then have tw2: "takeWhile (\<lambda>x. x \<noteq> CHR ''@'') (host @ CHR '' '' # ?r1) =
      host @ CHR '' '' # takeWhile (\<lambda>x. x \<noteq> CHR ''@'') ?r1"
    by simp
  have b: "index (split_on CHR ''@'' ?a) (Suc 0) =
      Inr (host @ CHR '' '' # takeWhile (\<lambda>x. x \<noteq> CHR ''@'') ?r1)"
    unfolding index_split_on_1 dropWhile_until[OF u(4)] using tw2 by simp
  have hw: "split_ws (host @ CHR '' '' # takeWhile (\<lambda>x. x \<noteq> CHR ''@'') ?r1) =
      host # split_ws (takeWhile (\<lambda>x. x \<noteq> CHR ''@'') ?r1)"
    using h(1) h(5) by (intro split_ws_word) auto
  have host: "getHostname (?t0 # ts) = Inr host"
    unfolding getHostname_def i0 by (simp add: a b hw) (simp add: index_def)
  have act: "getAction (?t0 # ts) = Inr cmd"
    by (simp add: getAction_def index_def words)
  show "origin (?t0 # ts) = Inr (None, Some (strippedNickname nick, usr, host), Some cmd)"
    by (simp add: origin_def srv nick usr host act)
qed

lemma user_prefix_extraction:
  assumes "plain_word nick" and "plain_word usr" and "plain_word host"
    and "split_ws r0 = cmd # params"
    and "cmd \<in> set [''NOTICE'', ''PRIVMSG''] \<longrightarrow> params \<noteq> []"
  shows "\<exists>e. general_extraction ((nick @ CHR ''!'' # usr @ CHR ''@'' # host @ CHR '' '' # r0) # ts) = Inr e
     \<and> user e = Some (strippedNickname nick, usr, host)"
proof -
  let ?t0 = "nick @ CHR ''!'' # usr @ CHR ''@'' # host @ CHR '' '' # r0"
  let ?t = "?t0 # ts"
  note o = user_prefix_origin(1)[OF assms(1-4), of ts] user_prefix_origin(2)[OF assms(1-4)]
  have srv: "isServerMessage ?t = Inr False"
    using plain_wordD(3)[OF assms(1)] by (simp add: isServerMessage_def index_def o(2))
  have "\<exists>rcp. recipient_of ?t (Some cmd) = Inr rcp"
  proof (cases "cmd \<in> set [''NOTICE'', ''PRIVMSG'']")
    case True
    with assms(5) obtain p ps where "params = p # ps" by (cases params) auto
    then have "getRecipient ?t = Inr p"
      by (simp add: getRecipient_def index_def o(2))
    with True srv show ?thesis by (auto simp: recipient_of_def)
  next
    case False
    then show ?thesis by (auto simp: recipient_of_def)
  qed
  then obtain rcp where r: "recipient_of ?t (Some cmd) = Inr rcp" by blast
  have "\<exists>cd. getIRCCode ?t = Inr cd"
    by (simp add: getIRCCode_def index_def o(2) code_of_word)
  then obtain cd where c: "getIRCCode ?t = Inr cd" by blast
  have "\<exists>ch. getChannel ?t = Inr ch"
    by (simp add: getChannel_def index_def)
  then obtain ch where ch: "getChannel ?t = Inr ch" by blast
  have m: "getMsg ?t cd (Some cmd) = Inr (msg_policy ?t cd (Some cmd))"
    by (rule getMsg_policy) simp
  show ?thesis
    by (simp add: general_extraction_def o(1) r c ch m)
qed

section \<open>The claims\<close>

text \<open>
  C1. For every input string and every output mode \<open>parse\<close> returns a value, it never
  raises; and whenever \<open>_parse\<close> raises \<open>IndexError\<close>, \<open>parse\<close> returns the result of
  that output mode in which all six fields are \<open>None\<close>.
\<close>

theorem parse_never_raises:
  "(\<exists>r. parse s out = Inr r) \<and>
   (parse_inner s out = Inl IndexError \<longrightarrow>
      parse s out = Inr (fallback out) \<and>
      map (field (fallback out)) keys = replicate 6 (Some PyNone))"
proof -
  have "\<exists>r. parse s out = Inr r"
    using parse_make_view[of s] by blast
  moreover have "parse_inner s out = Inl IndexError \<Longrightarrow> parse s out = Inr (fallback out)"
    by (simp add: parse_def)
  moreover have "map (field (fallback out)) keys = replicate 6 (Some PyNone)"
    by (simp add: fallback_make_view none_list make_view_fields) (simp add: numeral_eq_Suc)
  ultimately show ?thesis by blast
qed

theorem parse_never_raises_witness:
  "parse_inner '''' ''dict'' = Inl IndexError \<and>
   parse '''' ''dict'' = Inr (fallback ''dict'') \<and>
   map (field (fallback ''dict'')) keys = replicate 6 (Some PyNone)"
proof -
  have h: "parse_inner '''' ''dict'' = Inl IndexError"
    by code_simp
  with parse_never_raises[of "''''" "''dict''"] show ?thesis by blast
qed

text \<open>
  C2. For every input string the result never has both the server field and the user
  field set: at least one of the two is \<open>None\<close>.
\<close>

theorem server_user_exclusive:
  "\<exists>r. parse s out = Inr r \<and> (field r ''server'' = Some PyNone \<or> field r ''user'' = Some PyNone)"
proof -
  from parse_cases[of s] show ?thesis
  proof
    assume "fields_of_line s = Inl IndexError \<and>
      (\<forall>out. parse s out = Inr (make_view out (replicate 6 PyNone)))"
    then show ?thesis by (simp add: none_list field_make_view)
  next
    assume "\<exists>e ty. fields_of_line s = Inr e \<and> action_or_code e = Inr ty \<and>
      (\<forall>out. parse s out = Inr (make_view out (six e ty)))"
    then obtain e ty where f: "fields_of_line s = Inr e"
      and p: "parse s out = Inr (make_view out (six e ty))" by blast
    from fields_of_line_Inr(2)[OF f] have "of_str (server e) = PyNone \<or> of_user (user e) = PyNone"
      by (auto simp: of_str_def of_user_def)
    with p show ?thesis by (simp add: six_def field_make_view)
  qed
qed

text \<open>
  C8. For every input string, the results of \<open>parse\<close> in any two output modes carry the
  same six field values, all six present, and each is obtained from the other by reading
  its six values and giving them the other shape, without parsing again.
\<close>

theorem views_equivalent:
  "\<exists>r1 r2. parse s out1 = Inr r1 \<and> parse s out2 = Inr r2 \<and>
     map (field r1) keys = map (field r2) keys \<and>
     length (values_of r1) = 6 \<and> None \<notin> set (map (field r1) keys) \<and>
     make_view out2 (values_of r1) = r2 \<and> make_view out1 (values_of r2) = r1"
proof -
  from parse_make_view[of s] obtain a b c d e f
    where p: "\<And>out. parse s out = Inr (make_view out [a, b, c, d, e, f])" by blast
  let ?r1 = "make_view out1 [a, b, c, d, e, f]" and ?r2 = "make_view out2 [a, b, c, d, e, f]"
  have "map (field ?r1) keys = map (field ?r2) keys"
    by (simp only: make_view_fields)
  moreover have "length (values_of ?r1) = 6"
    by (simp only: make_view_values) simp
  moreover have "None \<notin> set (map (field ?r1) keys)"
    by (simp only: make_view_fields) simp
  moreover have "make_view out2 (values_of ?r1) = ?r2" and "make_view out1 (values_of ?r2) = ?r1"
    by (simp_all only: make_view_values)
  ultimately show ?thesis
    using p[of out1] p[of out2] by blast
qed

text \<open>
  C3, as stated, fails on a line that starts with PING and has no colon: there is no
  token, the subscript raises, and the result is the all-absent one.
\<close>

theorem ping_without_colon_counterexample:
  "startswith ''PING'' ''PING'' \<and>
   parse ''PING'' ''tuple'' = Inr (Tuple [PyNone, PyNone, PyNone, PyNone, PyNone, PyNone]) \<and>
   field (Tuple [PyNone, PyNone, PyNone, PyNone, PyNone, PyNone]) ''type'' \<noteq> Some (PyStr ''PING'')"
  by code_simp

text \<open>
  C3, amended. For every input line that starts with the literal text PING and contains a
  colon, the result has type \<open>PING\<close>, msg is the first token (the text behind the first
  colon up to the next colon), and server, user, recipient and channel are all absent.
\<close>

theorem ping_line:
  assumes "startswith s ''PING''" and "CHR '':'' \<in> set s"
  shows "\<exists>r m ts. parse s out = Inr r \<and> tokenize s = m # ts \<and>
     m = takeWhile (\<lambda>x. x \<noteq> CHR '':'') (tl (dropWhile (\<lambda>x. x \<noteq> CHR '':'') s)) \<and>
     field r ''type'' = Some (PyStr ''PING'') \<and> field r ''msg'' = Some (PyStr m) \<and>
     field r ''server'' = Some PyNone \<and> field r ''user'' = Some PyNone \<and>
     field r ''recipient'' = Some PyNone \<and> field r ''channel'' = Some PyNone"
proof -
  let ?rest = "tl (dropWhile (\<lambda>x. x \<noteq> CHR '':'') s)"
  let ?m = "takeWhile (\<lambda>x. x \<noteq> CHR '':'') ?rest"
  let ?e = "\<lparr>server = None, channel = None, recipient = None, user = None,
          action = Some ''PING'', code = None, msg = Some ?m\<rparr>"
  have t: "tokenize s = ?m # tl (split_on CHR '':'' ?rest)"
    using tokenize_present[OF assms(2)] split_on_eq_Cons[of "CHR '':''" ?rest] by simp
  then have "fields_of_line s = Inr ?e"
    using assms(1) by (simp add: fields_of_line_ping ping_branch_def index_def)
  moreover have "action_or_code ?e = Inr (Some ''PING'')"
    by (simp add: action_or_code_def)
  ultimately have "parse s out = Inr (make_view out (six ?e (Some ''PING'')))"
    by (rule parse_Inr)
  with t show ?thesis
    by (simp add: six_def field_make_view of_str_def of_user_def)
qed

theorem ping_line_witness:
  "startswith ''PING :a.b:c'' ''PING'' \<and> CHR '':'' \<in> set ''PING :a.b:c'' \<and>
   parse ''PING :a.b:c'' ''dict'' = Inr (Dict
     [(''server'', PyNone), (''channel'', PyNone), (''recipient'', PyNone), (''user'', PyNone),
      (''type'', PyStr ''PING''), (''msg'', PyStr ''a.b'')])"
proof -
  have h1: "startswith ''PING :a.b:c'' ''PING''" by (simp add: startswith_def)
  have h2: "CHR '':'' \<in> set ''PING :a.b:c''" by simp
  have v: "parse ''PING :a.b:c'' ''dict'' = Inr (Dict
     [(''server'', PyNone), (''channel'', PyNone), (''recipient'', PyNone), (''user'', PyNone),
      (''type'', PyStr ''PING''), (''msg'', PyStr ''a.b'')])"
    by code_simp
  from h1 h2 v ping_line[OF h1 h2, of "''dict''"] show ?thesis by blast
qed

text \<open>
  C4, as stated, fails on a line whose only colon is the leading one: \<open>tokenize\<close> drops
  the piece in front of the first colon wherever that colon stands, so the token list holds
  the rest of the line and the line is decoded.
\<close>

theorem leading_colon_counterexample:
  "\<not> startswith '':a b'' ''PING'' \<and> CHR '':'' \<notin> set (drop 1 '':a b'') \<and>
   tokenize '':a b'' = [''a b''] \<and> tokenize '':a b'' \<noteq> [] \<and>
   parse '':a b'' ''tuple'' = Inr (Tuple [PyStr ''a'', PyNone, PyNone, PyNone, PyNone, PyNone]) \<and>
   parse '':a b'' ''tuple'' \<noteq> Inr (fallback ''tuple'')"
  by code_simp

text \<open>
  C4, amended. For every input line that contains no colon at any position, the token list
  is empty and the result is the all-absent one.
\<close>

theorem no_colon_all_absent:
  "CHR '':'' \<notin> set s \<Longrightarrow>
     tokenize s = [] \<and> parse s out = Inr (fallback out) \<and>
     map (field (fallback out)) keys = replicate 6 (Some PyNone)"
  by (simp add: tokenize_absent fields_of_line_no_tokens parse_Inl fallback_fields)

theorem no_colon_all_absent_witness:
  "CHR '':'' \<notin> set ''PING x'' \<and> tokenize ''PING x'' = [] \<and>
   parse ''PING x'' ''list'' = Inr (fallback ''list'') \<and>
   map (field (fallback ''list'')) keys = replicate 6 (Some PyNone)"
proof -
  have h: "CHR '':'' \<notin> set ''PING x''" by simp
  from h no_colon_all_absent[OF h, of "''list''"] show ?thesis by blast
qed

text \<open>
  C9. Two input lines that do not start with PING and that have the same text behind their
  first colon have the same result: what stands in front of the first colon has no
  influence.
\<close>

theorem prefix_irrelevant:
  assumes "CHR '':'' \<notin> set p1" and "CHR '':'' \<notin> set p2"
    and "\<not> startswith (p1 @ CHR '':'' # r) ''PING''"
    and "\<not> startswith (p2 @ CHR '':'' # r) ''PING''"
  shows "parse (p1 @ CHR '':'' # r) out = parse (p2 @ CHR '':'' # r) out"
proof -
  have "fields_of_line (p1 @ CHR '':'' # r) = fields_of_line (p2 @ CHR '':'' # r)"
    using assms by (simp add: fields_of_line_else tokenize_append)
  then show ?thesis by (simp add: parse_def parse_inner_def)
qed

theorem prefix_irrelevant_witness:
  "CHR '':'' \<notin> set ''x'' \<and> CHR '':'' \<notin> set ''PONG '' \<and>
   \<not> startswith (''x'' @ CHR '':'' # ''a 1'') ''PING'' \<and>
   \<not> startswith (''PONG '' @ CHR '':'' # ''a 1'') ''PING'' \<and>
   parse (''x'' @ CHR '':'' # ''a 1'') ''list'' = parse (''PONG '' @ CHR '':'' # ''a 1'') ''list''"
proof -
  have h1: "CHR '':'' \<notin> set ''x''" and h2: "CHR '':'' \<notin> set ''PONG ''" by simp_all
  have h3: "\<not> startswith (''x'' @ CHR '':'' # ''a 1'') ''PING''"
    and h4: "\<not> startswith (''PONG '' @ CHR '':'' # ''a 1'') ''PING''"
    by (simp_all add: startswith_def)
  from h1 h2 h3 h4 prefix_irrelevant[OF h1 h2 h3 h4, of "''list''"] show ?thesis by blast
qed

text \<open>
  C10. For every input that does not start with PING, whose first token has a first word
  that contains \<open>!\<close>, and whose first token has no \<open>@\<close> behind its first \<open>!\<close>, the
  result is the all-absent one: \<open>getHostname\<close> raises \<open>IndexError\<close>.
\<close>

theorem malformed_user_prefix:
  assumes "\<not> startswith s ''PING''" and "tokenize s = t0 # ts" and "split_ws t0 = w # ws"
    and "CHR ''!'' \<in> set w"
    and "CHR ''@'' \<notin> set (tl (dropWhile (\<lambda>x. x \<noteq> CHR ''!'') t0))"
  shows "parse s out = Inr (fallback out) \<and>
     map (field (fallback out)) keys = replicate 6 (Some PyNone)"
proof -
  have "general_extraction (t0 # ts) = Inl IndexError"
    using origin_no_at[OF assms(3,4,5)] by (simp add: general_extraction_def)
  then have "fields_of_line s = Inl IndexError"
    using assms(1,2) by (simp add: fields_of_line_else)
  then show ?thesis by (simp add: parse_Inl fallback_fields)
qed

theorem malformed_user_prefix_witness:
  "\<not> startswith '':a!b c :d'' ''PING'' \<and> tokenize '':a!b c :d'' = ''a!b c '' # [''d''] \<and>
   split_ws ''a!b c '' = ''a!b'' # [''c''] \<and> CHR ''!'' \<in> set ''a!b'' \<and>
   CHR ''@'' \<notin> set (tl (dropWhile (\<lambda>x. x \<noteq> CHR ''!'') ''a!b c '')) \<and>
   parse '':a!b c :d'' ''object'' = Inr (fallback ''object'') \<and>
   map (field (fallback ''object'')) keys = replicate 6 (Some PyNone)"
proof -
  have h1: "\<not> startswith '':a!b c :d'' ''PING''" by (simp add: startswith_def)
  have h2: "tokenize '':a!b c :d'' = ''a!b c '' # [''d'']" by code_simp
  have h3: "split_ws ''a!b c '' = ''a!b'' # [''c'']" by code_simp
  have h4: "CHR ''!'' \<in> set ''a!b''" by simp
  have h5: "CHR ''@'' \<notin> set (tl (dropWhile (\<lambda>x. x \<noteq> CHR ''!'') ''a!b c ''))" by simp
  from h1 h2 h3 h4 h5 malformed_user_prefix[OF h1 h2 h3 h4 h5, of "''object''"]
  show ?thesis by blast
qed

text \<open>
  C5, as stated, fails on a non-PING line whose first token lacks a word that the
  extraction reads: \<open>:a :b\<close> has two tokens, so the policy gives the payload \<open>b\<close>,
  but \<open>getIRCCode\<close> finds no second word, raises \<open>IndexError\<close>, and the result is the
  all-absent one.
\<close>

theorem payload_without_code_counterexample:
  "\<not> startswith '':a :b'' ''PING'' \<and>
   tokenize '':a :b'' = [''a '', ''b''] \<and>
   1 < length (tokenize '':a :b'') \<and>
   join '':'' (drop 1 (tokenize '':a :b'')) = ''b'' \<and>
   msg_policy (tokenize '':a :b'') None None = Some ''b'' \<and>
   parse '':a :b'' ''tuple'' = Inr (Tuple [PyNone, PyNone, PyNone, PyNone, PyNone, PyNone]) \<and>
   field (Tuple [PyNone, PyNone, PyNone, PyNone, PyNone, PyNone]) ''msg'' \<noteq> Some (PyStr ''b'')"
  by code_simp

text \<open>
  C5, amended. For every input that does not start with PING and on which the general
  field extraction raises nothing, the payload that \<open>getMsg\<close> computes (the value of
  \<open>msg\<close> at line 155) is the one of the first-match-wins policy \<open>msg_policy\<close>, applied
  to the tokens, the extracted code and the action. It is the msg field of the result
  unless the action is PART; then the msg field is the extracted channel.
\<close>

theorem msg_policy_refined:
  assumes "\<not> startswith s ''PING''" and "general_extraction (tokenize s) = Inr e"
  shows "\<exists>cd r. code e = Some cd \<and>
     getMsg (tokenize s) cd (action e) = Inr (msg_policy (tokenize s) cd (action e)) \<and>
     msg e = msg_policy (tokenize s) cd (action e) \<and>
     parse s out = Inr r \<and>
     (action e \<noteq> Some ''PART'' \<longrightarrow>
        field r ''msg'' = Some (of_str (msg_policy (tokenize s) cd (action e)))) \<and>
     (action e = Some ''PART'' \<longrightarrow> field r ''msg'' = Some (of_str (channel e)))"
proof -
  from general_extraction_msg[OF assms(2)] obtain cd
    where t: "tokenize s \<noteq> []" and c: "code e = Some cd"
      and m: "msg e = msg_policy (tokenize s) cd (action e)" by blast
  from parse_else[OF assms c, of out] obtain e' ty
    where e': "e' = (if action e = Some ''JOIN''
            then (part_override e)\<lparr>channel := msg_policy (tokenize s) cd (action e)\<rparr>
            else part_override e)"
      and p: "parse s out = Inr (make_view out (six e' ty))" by blast
  have "action e \<noteq> Some ''PART'' \<Longrightarrow> msg e' = msg e"
    by (simp add: e' part_override_def)
  moreover have "action e = Some ''PART'' \<Longrightarrow> msg e' = channel e"
    by (simp add: e' part_override_def)
  ultimately show ?thesis
    using c m p getMsg_policy[OF t, of cd "action e"] by (auto simp: field_six)
qed

theorem msg_policy_refined_witness:
  "\<not> startswith '':s 333 a #c bob 12'' ''PING'' \<and>
   general_extraction (tokenize '':s 333 a #c bob 12'') =
     Inr \<lparr>server = Some ''s'', channel = Some ''#c'', recipient = None, user = None,
          action = None, code = Some (Some ''333''), msg = Some ''bob 12''\<rparr> \<and>
   msg_policy (tokenize '':s 333 a #c bob 12'') (Some ''333'') None = Some ''bob 12'' \<and>
   (\<exists>r. parse '':s 333 a #c bob 12'' ''list'' = Inr r \<and> field r ''msg'' = Some (PyStr ''bob 12'')) \<and>
   \<not> startswith '':n!u@h MODE #c +o b'' ''PING'' \<and>
   general_extraction (tokenize '':n!u@h MODE #c +o b'') =
     Inr \<lparr>server = None, channel = Some ''#c'', recipient = None,
          user = Some (''n'', ''u'', ''h''), action = Some ''MODE'', code = Some None,
          msg = Some ''+o b''\<rparr> \<and>
   (\<exists>r. parse '':n!u@h MODE #c +o b'' ''list'' = Inr r \<and> field r ''msg'' = Some (PyStr ''+o b'')) \<and>
   \<not> startswith '':n!u@h NICK :m:x'' ''PING'' \<and>
   general_extraction (tokenize '':n!u@h NICK :m:x'') =
     Inr \<lparr>server = None, channel = None, recipient = None,
          user = Some (''n'', ''u'', ''h''), action = Some ''NICK'', code = Some None,
          msg = Some ''m:x''\<rparr> \<and>
   (\<exists>r. parse '':n!u@h NICK :m:x'' ''list'' = Inr r \<and> field r ''msg'' = Some (PyStr ''m:x'')) \<and>
   \<not> startswith '':a 42'' ''PING'' \<and>
   general_extraction (tokenize '':a 42'') =
     Inr \<lparr>server = Some ''a'', channel = None, recipient = None, user = None,
          action = None, code = Some (Some ''42''), msg = None\<rparr> \<and>
   (\<exists>r. parse '':a 42'' ''list'' = Inr r \<and> field r ''msg'' = Some PyNone)"
proof -
  let ?s = "'':s 333 a #c bob 12''"
  let ?e = "\<lparr>server = Some ''s'', channel = Some ''#c'', recipient = None, user = None,
          action = None, code = Some (Some ''333''), msg = Some ''bob 12''\<rparr>"
  have h1: "\<not> startswith ?s ''PING''" by (simp add: startswith_def)
  have h2: "general_extraction (tokenize ?s) = Inr ?e" by code_simp
  from msg_policy_refined[OF h1 h2, of "''list''"] obtain cd r
    where c: "code ?e = Some cd" and m: "msg ?e = msg_policy (tokenize ?s) cd (action ?e)"
      and p: "parse ?s ''list'' = Inr r"
      and f: "action ?e \<noteq> Some ''PART'' \<longrightarrow>
        field r ''msg'' = Some (of_str (msg_policy (tokenize ?s) cd (action ?e)))"
    by blast
  from c have cd: "cd = Some ''333''" by simp
  from m have pol: "msg_policy (tokenize ?s) (Some ''333'') None = Some ''bob 12''"
    unfolding cd by simp
  from f have "field r ''msg'' = Some (PyStr ''bob 12'')"
    unfolding cd by (simp add: pol of_str_def)
  with p have a: "\<exists>r. parse ?s ''list'' = Inr r \<and> field r ''msg'' = Some (PyStr ''bob 12'')"
    by blast
  have gen: "\<exists>r. parse s ''list'' = Inr r \<and> field r ''msg'' = Some (of_str (msg e))"
    if "\<not> startswith s ''PING''" and "general_extraction (tokenize s) = Inr e"
      and "action e \<noteq> Some ''PART''" for s e
  proof -
    from msg_policy_refined[OF that(1,2), of "''list''"] obtain cd r
      where "msg e = msg_policy (tokenize s) cd (action e)" and "parse s ''list'' = Inr r"
        and "action e \<noteq> Some ''PART'' \<longrightarrow>
          field r ''msg'' = Some (of_str (msg_policy (tokenize s) cd (action e)))"
      by blast
    with that(3) show ?thesis by simp
  qed
  let ?s2 = "'':n!u@h MODE #c +o b''"
  let ?e2 = "\<lparr>server = None, channel = Some ''#c'', recipient = None,
          user = Some (''n'', ''u'', ''h''), action = Some ''MODE'', code = Some None,
          msg = Some ''+o b''\<rparr>"
  have k1: "\<not> startswith ?s2 ''PING''" by (simp add: startswith_def)
  have k2: "general_extraction (tokenize ?s2) = Inr ?e2" by code_simp
  from gen[OF k1 k2]
  have b: "\<exists>r. parse ?s2 ''list'' = Inr r \<and> field r ''msg'' = Some (PyStr ''+o b'')"
    by (simp add: of_str_def)
  let ?s3 = "'':n!u@h NICK :m:x''"
  let ?e3 = "\<lparr>server = None, channel = None, recipient = None,
          user = Some (''n'', ''u'', ''h''), action = Some ''NICK'', code = Some None,
          msg = Some ''m:x''\<rparr>"
  have l1: "\<not> startswith ?s3 ''PING''" by (simp add: startswith_def)
  have l2: "general_extraction (tokenize ?s3) = Inr ?e3" by code_simp
  from gen[OF l1 l2]
  have c3: "\<exists>r. parse ?s3 ''list'' = Inr r \<and> field r ''msg'' = Some (PyStr ''m:x'')"
    by (simp add: of_str_def)
  let ?s4 = "'':a 42''"
  let ?e4 = "\<lparr>server = Some ''a'', channel = None, recipient = None, user = None,
          action = None, code = Some (Some ''42''), msg = None\<rparr>"
  have m1: "\<not> startswith ?s4 ''PING''" by (simp add: startswith_def)
  have m2: "general_extraction (tokenize ?s4) = Inr ?e4" by code_simp
  from gen[OF m1 m2]
  have d: "\<exists>r. parse ?s4 ''list'' = Inr r \<and> field r ''msg'' = Some PyNone"
    by (simp add: of_str_def)
  from h1 h2 pol a k1 k2 b l1 l2 c3 m1 m2 d show ?thesis by blast
qed

text \<open>
  C6. For every input that does not start with PING and passes the general field
  extraction: with action PART the final msg is the extracted channel, with action JOIN
  the final channel is the payload of the policy, any other action changes nothing; the
  PART override is applied first, the JOIN override second.
\<close>

theorem command_overrides:
  assumes "\<not> startswith s ''PING''" and "general_extraction (tokenize s) = Inr e"
  shows "\<exists>cd e' r. code e = Some cd \<and>
     overrides (tokenize s) e = Inr e' \<and>
     overrides (tokenize s) e = join_override (tokenize s) (part_override e) \<and>
     fields_of_line s = Inr e' \<and> parse s out = Inr r \<and>
     (action e = Some ''PART'' \<longrightarrow>
        msg e' = channel e \<and> channel e' = channel e \<and>
        field r ''msg'' = Some (of_str (channel e))) \<and>
     (action e = Some ''JOIN'' \<longrightarrow>
        channel e' = msg_policy (tokenize s) cd (action e) \<and> msg e' = msg e \<and>
        field r ''channel'' = Some (of_str (msg_policy (tokenize s) cd (action e)))) \<and>
     (action e \<noteq> Some ''PART'' \<and> action e \<noteq> Some ''JOIN'' \<longrightarrow> e' = e)"
proof -
  from general_extraction_msg[OF assms(2)] obtain cd
    where c: "code e = Some cd" by blast
  from parse_else[OF assms c, of out] obtain e' ty
    where e': "e' = (if action e = Some ''JOIN''
            then (part_override e)\<lparr>channel := msg_policy (tokenize s) cd (action e)\<rparr>
            else part_override e)"
      and o: "overrides (tokenize s) e = Inr e'" and f: "fields_of_line s = Inr e'"
      and p: "parse s out = Inr (make_view out (six e' ty))" by blast
  have part: "action e = Some ''PART'' \<Longrightarrow> msg e' = channel e \<and> channel e' = channel e"
    by (simp add: e' part_override_def)
  have join: "action e = Some ''JOIN'' \<Longrightarrow>
      channel e' = msg_policy (tokenize s) cd (action e) \<and> msg e' = msg e"
    by (simp add: e' part_override_def)
  have other: "action e \<noteq> Some ''PART'' \<and> action e \<noteq> Some ''JOIN'' \<Longrightarrow> e' = e"
    by (simp add: e' part_override_def)
  from c o f p part join other show ?thesis
    by (auto simp: field_six overrides_def)
qed

theorem command_overrides_witness:
  "\<not> startswith '':n!u@h PART #c :bye'' ''PING'' \<and>
   general_extraction (tokenize '':n!u@h PART #c :bye'') =
     Inr \<lparr>server = None, channel = Some ''#c'', recipient = None,
          user = Some (''n'', ''u'', ''h''), action = Some ''PART'', code = Some None,
          msg = Some ''bye''\<rparr> \<and>
   (\<exists>r. parse '':n!u@h PART #c :bye'' ''dict'' = Inr r \<and> field r ''msg'' = Some (PyStr ''#c'')) \<and>
   \<not> startswith '':n!u@h JOIN :#d'' ''PING'' \<and>
   general_extraction (tokenize '':n!u@h JOIN :#d'') =
     Inr \<lparr>server = None, channel = None, recipient = None,
          user = Some (''n'', ''u'', ''h''), action = Some ''JOIN'', code = Some None,
          msg = Some ''#d''\<rparr> \<and>
   (\<exists>r. parse '':n!u@h JOIN :#d'' ''dict'' = Inr r \<and> field r ''channel'' = Some (PyStr ''#d''))"
proof -
  let ?s = "'':n!u@h PART #c :bye''"
  let ?e = "\<lparr>server = None, channel = Some ''#c'', recipient = None,
          user = Some (''n'', ''u'', ''h''), action = Some ''PART'', code = Some None,
          msg = Some ''bye''\<rparr>"
  let ?s' = "'':n!u@h JOIN :#d''"
  let ?e' = "\<lparr>server = None, channel = None, recipient = None,
          user = Some (''n'', ''u'', ''h''), action = Some ''JOIN'', code = Some None,
          msg = Some ''#d''\<rparr>"
  have h1: "\<not> startswith ?s ''PING''" by (simp add: startswith_def)
  have h2: "general_extraction (tokenize ?s) = Inr ?e" by code_simp
  have k1: "\<not> startswith ?s' ''PING''" by (simp add: startswith_def)
  have k2: "general_extraction (tokenize ?s') = Inr ?e'" by code_simp
  have p: "msg_policy (tokenize ?s') None (Some ''JOIN'') = Some ''#d''" by code_simp
  from command_overrides[OF h1 h2, of "''dict''"]
  have a: "\<exists>r. parse ?s ''dict'' = Inr r \<and> field r ''msg'' = Some (PyStr ''#c'')"
    by (auto simp: of_str_def)
  from command_overrides[OF k1 k2, of "''dict''"] p
  have b: "\<exists>r. parse ?s' ''dict'' = Inr r \<and> field r ''channel'' = Some (PyStr ''#d'')"
    by (auto simp: of_str_def)
  from h1 h2 a k1 k2 b show ?thesis by blast
qed

text \<open>
  C7, as stated, fails on a NOTICE or PRIVMSG line without a recipient word in the first
  token: \<open>getRecipient\<close> raises \<open>IndexError\<close> and the result is the all-absent one, so
  the user field is \<open>None\<close>.
\<close>

theorem privmsg_without_recipient_counterexample:
  "plain_word ''n'' \<and> plain_word ''u'' \<and> plain_word ''h'' \<and>
   '':n!u@h PRIVMSG :hi'' = '':'' @ ''n'' @ ''!'' @ ''u'' @ ''@'' @ ''h'' @ '' '' @ ''PRIVMSG :hi'' \<and>
   parse '':n!u@h PRIVMSG :hi'' ''tuple'' =
     Inr (Tuple [PyNone, PyNone, PyNone, PyNone, PyNone, PyNone]) \<and>
   field (Tuple [PyNone, PyNone, PyNone, PyNone, PyNone, PyNone]) ''user'' \<noteq>
     Some (PyTuple3 (strippedNickname ''n'') ''u'' ''h'')"
  by code_simp

text \<open>
  C7, amended. For every line \<open>:nick!user@host rest\<close> in which nick, user and host are
  non-empty and contain no colon, exclamation mark, at sign or whitespace, in which the
  text of \<open>rest\<close> in front of its first colon starts with a command word, and in which
  another word follows that command in front of the colon when the command is NOTICE or
  PRIVMSG, the user field of the result is the triple of the nick without one leading
  sigil, the user and the host.
\<close>

theorem user_triple:
  assumes "plain_word nick" and "plain_word usr" and "plain_word host"
    and "split_ws (takeWhile (\<lambda>x. x \<noteq> CHR '':'') rest) = cmd # params"
    and "cmd \<in> set [''NOTICE'', ''PRIVMSG''] \<longrightarrow> params \<noteq> []"
  shows "\<exists>r. parse ('':'' @ nick @ ''!'' @ usr @ ''@'' @ host @ '' '' @ rest) out = Inr r \<and>
     field r ''user'' = Some (PyTuple3 (strippedNickname nick) usr host)"
proof -
  let ?s = "CHR '':'' # nick @ CHR ''!'' # usr @ CHR ''@'' # host @ CHR '' '' # rest"
  from user_prefix_token[OF assms(1-3), of rest] obtain ts where
    t: "tokenize ?s = (nick @ CHR ''!'' # usr @ CHR ''@'' # host @ CHR '' '' #
          takeWhile (\<lambda>x. x \<noteq> CHR '':'') rest) # ts"
    by blast
  from user_prefix_extraction[OF assms, of ts] obtain e where
    g: "general_extraction (tokenize ?s) = Inr e"
    and u: "user e = Some (strippedNickname nick, usr, host)"
    unfolding t by blast
  have np: "\<not> startswith ?s ''PING''" by (simp add: startswith_def)
  from general_extraction_msg(2)[OF g] obtain cd where c: "code e = Some cd" by blast
  from parse_else[OF np g c, of out] obtain e' ty
    where e': "e' = (if action e = Some ''JOIN''
            then (part_override e)\<lparr>channel := msg_policy (tokenize ?s) cd (action e)\<rparr>
            else part_override e)"
      and p: "parse ?s out = Inr (make_view out (six e' ty))" by blast
  have "user e' = user e" by (simp add: e')
  with p u show ?thesis by (simp add: field_six of_user_def)
qed

theorem user_triple_witness:
  "plain_word ''~n'' \<and> plain_word ''u'' \<and> plain_word ''h'' \<and>
   split_ws (takeWhile (\<lambda>x. x \<noteq> CHR '':'') ''PRIVMSG #c :hi'') = ''PRIVMSG'' # [''#c''] \<and>
   [''#c''] \<noteq> [] \<and>
   (\<exists>r. parse '':~n!u@h PRIVMSG #c :hi'' ''tuple'' = Inr r \<and>
        field r ''user'' = Some (PyTuple3 ''n'' ''u'' ''h''))"
proof -
  have h1: "plain_word ''~n''" and h2: "plain_word ''u''" and h3: "plain_word ''h''"
    by (simp_all add: plain_word_def isspace_def)
  have h4: "split_ws (takeWhile (\<lambda>x. x \<noteq> CHR '':'') ''PRIVMSG #c :hi'') = ''PRIVMSG'' # [''#c'']"
    by code_simp
  have h5: "''PRIVMSG'' \<in> set [''NOTICE'', ''PRIVMSG''] \<longrightarrow> [''#c''] \<noteq> []" by simp
  have n: "strippedNickname ''~n'' = ''n''" by (simp add: strippedNickname_def)
  from user_triple[OF h1 h2 h3 h4 h5, of "''tuple''"]
  have "\<exists>r. parse '':~n!u@h PRIVMSG #c :hi'' ''tuple'' = Inr r \<and>
        field r ''user'' = Some (PyTuple3 ''n'' ''u'' ''h'')"
    by (simp add: n)
  with h1 h2 h3 h4 show ?thesis by simp
qed

end
